theory Spec2Isabelle
  imports Main "HOL-Library.Word"
begin

section \<open>The command parser of the task manager (parse.c)\<close>

text \<open>
  A shallow embedding of \<^verbatim>\<open>src/parse.c\<close>. A C string is the \<open>string\<close> of its
  characters before the terminating NUL; a pointer that may be null is an \<open>option\<close>
  (\<open>None\<close> is \<^verbatim>\<open>NULL\<close>). The array \<^verbatim>\<open>char *argv[]\<close> is the list of its slots, the
  length of the list being the size of the array the caller owns. \<^verbatim>\<open>int\<close> is 32 bits
  wide and \<^verbatim>\<open>long\<close> 64 bits wide (LP64). Behaviour that C leaves undefined (a read
  past the scratch buffer, an access outside the argv array, the release of a block
  that is not allocated) is the value \<open>Inl\<close> of a fault. \<^verbatim>\<open>malloc\<close> is taken to succeed.

  The macros \<^verbatim>\<open>MAXARGS\<close> and \<^verbatim>\<open>MAXLINE\<close> come from a header that is not part of the
  sources at hand; they are parameters of the model (positive numbers).
\<close>

subsection \<open>Data\<close>

type_synonym argv = "string option list"

record Instruction =
  instruct :: "string option"
  id' :: "32 word"
  file' :: "string option"

text \<open>The release functions are about the storage of the strings, not their characters.
  For them the heap is explicit: a map from the addresses of the allocated blocks to
  their contents, and the Instruction as it lies in memory, its two string fields being
  addresses of blocks (or null).\<close>

type_synonym addr = nat

type_synonym heap = "addr \<rightharpoonup> string"

record Instruction_mem =
  instruct_ptr :: "addr option"
  id_val :: "32 word"
  file_ptr :: "addr option"

datatype fault = Buffer_Overread | Argv_Out_Of_Bounds | Invalid_Free

subsection \<open>The C library functions used\<close>

definition NUL :: char where
  "NUL = CHR 0x00"

text \<open>\<^verbatim>\<open>strncpy(buffer, src, n)\<close> into a zeroed array of \<open>n\<close> bytes: the bytes of the array
  afterwards. No terminator is written when \<open>src\<close> has \<open>n\<close> characters or more.\<close>

definition strncpy :: "string \<Rightarrow> nat \<Rightarrow> char list" where
  "strncpy src n = take n src @ replicate (n - length src) NUL"

text \<open>Reading an array of bytes as a C string: the characters before the first NUL. With
  no NUL in the array the read runs past its end.\<close>

definition c_str :: "char list \<Rightarrow> string option" where
  "c_str bytes = (if NUL \<in> set bytes then Some (takeWhile (\<lambda>c. c \<noteq> NUL) bytes) else None)"

text \<open>\<^verbatim>\<open>strtok\<close>: the first argument is the text the saved position points at; the
  result is the token and the text after the delimiter that ended it (where the next
  call \<^verbatim>\<open>strtok(NULL, delim)\<close> goes on), or \<open>None\<close> when no token is left.\<close>

definition strtok :: "string \<Rightarrow> string \<Rightarrow> (string \<times> string) option" where
  "strtok s delim =
     (let s1 = dropWhile (\<lambda>c. c \<in> set delim) s
      in if s1 = [] then None
         else Some (takeWhile (\<lambda>c. c \<notin> set delim) s1,
                    drop 1 (dropWhile (\<lambda>c. c \<notin> set delim) s1)))"

text \<open>\<^verbatim>\<open>isspace\<close> and \<^verbatim>\<open>isdigit\<close> in the C locale.\<close>

definition isspace :: "char \<Rightarrow> bool" where
  "isspace c = (let n = (of_char c :: nat) in n = 32 \<or> (9 \<le> n \<and> n \<le> 13))"

definition isdigit :: "char \<Rightarrow> bool" where
  "isdigit c = (let n = (of_char c :: nat) in 48 \<le> n \<and> n \<le> 57)"

definition digits_val :: "string \<Rightarrow> int" where
  "digits_val ds = foldl (\<lambda>a c. 10 * a + (of_char c - 48)) 0 ds"

definition LONG_MAX :: int where
  "LONG_MAX = 2 ^ 63 - 1"

definition LONG_MIN :: int where
  "LONG_MIN = - (2 ^ 63)"

text \<open>\<^verbatim>\<open>strtol(nptr, &end, 10)\<close>: the value and the offset of \<^verbatim>\<open>end\<close> from \<^verbatim>\<open>nptr\<close>.
  Leading white space is skipped, one sign is accepted, then the longest run of digits
  is converted; a value outside \<^verbatim>\<open>long\<close> is clamped. Without a digit nothing is
  converted: the value is 0 and \<^verbatim>\<open>end\<close> is \<^verbatim>\<open>nptr\<close>.\<close>

definition strtol :: "string \<Rightarrow> int \<times> nat" where
  "strtol nptr =
     (let s1 = dropWhile isspace nptr;
          neg = (s1 \<noteq> [] \<and> hd s1 = CHR ''-'');
          s2 = (if s1 \<noteq> [] \<and> (hd s1 = CHR ''-'' \<or> hd s1 = CHR ''+'') then tl s1 else s1);
          ds = takeWhile isdigit s2
      in if ds = [] then (0, 0)
         else (max LONG_MIN (min LONG_MAX (if neg then - digits_val ds else digits_val ds)),
               length nptr - length (dropWhile isdigit s2)))"

text \<open>\<^verbatim>\<open>free(p)\<close>: nothing happens for a null pointer; the block at \<open>p\<close> is released
  when there is one; anything else (a block already released, an address never
  allocated) is undefined.\<close>

definition c_free :: "heap \<Rightarrow> addr option \<Rightarrow> fault + heap" where
  "c_free h p =
     (case p of
        None \<Rightarrow> Inr h
      | Some a \<Rightarrow> (case h a of None \<Rightarrow> Inl Invalid_Free | Some s \<Rightarrow> Inr (h(a := None))))"

text \<open>\<^verbatim>\<open>strncmp(a, b, n) == 0\<close>: the first \<open>n\<close> characters agree, the terminators
  included.\<close>

definition strncmp_eq :: "string \<Rightarrow> string \<Rightarrow> nat \<Rightarrow> bool" where
  "strncmp_eq a b n = (take n (a @ [NUL]) = take n (b @ [NUL]))"

subsection \<open>Helpers of the repository that parse.c only calls\<close>

text \<open>Modelled from the spec: \<^verbatim>\<open>string_copy\<close> is declared in util.h and its body is not
  among the sources. The spec has every token and field "independently owned-copied":
  the result is a fresh string with the same characters. A null argument, which
  parse.c never passes, gives null.\<close>

definition string_copy :: "string option \<Rightarrow> string option" where
  "string_copy s = (case s of None \<Rightarrow> None | Some cs \<Rightarrow> Some cs)"

text \<open>Modelled from the spec: \<^verbatim>\<open>free_argv_str\<close> is declared in util.h and its body is not
  among the sources. The spec's release "frees every owned token and resets each slot
  to empty".\<close>

definition free_argv_str :: "argv \<Rightarrow> argv" where
  "free_argv_str argv = map (\<lambda>_. None) argv"

subsection \<open>Reference data\<close>

definition instructs_list_full :: "string list" where
  "instructs_list_full =
     [''help'', ''quit'', ''tasks'', ''delete'', ''run'', ''bg'', ''cancel'', ''log'',
      ''output'', ''suspend'', ''resume'']"

definition instructs_with_id :: "string list" where
  "instructs_with_id =
     [''delete'', ''run'', ''bg'', ''cancel'', ''log'', ''output'', ''suspend'', ''resume'']"

definition instructs_with_file :: "string list" where
  "instructs_with_file = [''run'', ''bg'', ''log'']"

subsection \<open>The functions of parse.c\<close>

fun contains :: "string option \<Rightarrow> string list \<Rightarrow> bool" where
  "contains None haystack = False"
| "contains (Some needle) [] = False"
| "contains (Some needle) (h # hs) =
     (if strncmp_eq needle h (length h + 1) then True else contains (Some needle) hs)"

text \<open>The third argument is the cell \<^verbatim>\<open>id\<close> points at (\<open>None\<close> for a null pointer);
  the result is the returned flag and the cell afterwards.\<close>

definition parse_id_token ::
  "string option \<Rightarrow> string option \<Rightarrow> 32 word option \<Rightarrow> int \<times> 32 word option" where
  "parse_id_token p_tok instruct_name idp =
     (case (p_tok, instruct_name, idp) of
        (Some tok, Some name, Some old) \<Rightarrow>
          if \<not> contains instruct_name instructs_with_id then (0, idp)
          else (let (v, end_off) = strtol tok
                in if end_off < length tok \<or> end_off = 0 then (0, Some 0)
                   else (1, Some (word_of_int v)))
      | _ \<Rightarrow> (0, idp))"

definition parse_file_token ::
  "string option \<Rightarrow> string option \<Rightarrow> string option option \<Rightarrow> int \<times> string option option" where
  "parse_file_token p_tok instruct_name filep =
     (case (p_tok, instruct_name, filep) of
        (Some tok, Some name, Some old) \<Rightarrow>
          if \<not> contains instruct_name instructs_with_file then (0, filep)
          else (1, Some (string_copy p_tok))
      | _ \<Rightarrow> (0, filep))"

definition is_whitespace :: "string option \<Rightarrow> bool" where
  "is_whitespace str = (case str of None \<Rightarrow> True | Some s \<Rightarrow> dropWhile isspace s = [])"

definition initialize_instruction :: "Instruction option \<Rightarrow> int \<times> Instruction option" where
  "initialize_instruction inst =
     (case inst of
        None \<Rightarrow> (0, None)
      | Some i \<Rightarrow> (1, Some (i\<lparr>instruct := None, id' := 0, file' := None\<rparr>)))"

function initialize_argv_loop :: "argv \<Rightarrow> nat \<Rightarrow> nat \<Rightarrow> fault + argv" where
  "initialize_argv_loop argv n i =
     (if i < n then
        (if i < length argv then initialize_argv_loop (argv[i := None]) n (Suc i)
         else Inl Argv_Out_Of_Bounds)
      else Inr argv)"
  by pat_completeness auto
termination
  by (relation "measure (\<lambda>(argv, n, i). n - i)") auto

definition initialize_argv_n :: "argv option \<Rightarrow> nat \<Rightarrow> fault + (int \<times> argv option)" where
  "initialize_argv_n argv n =
     (case argv of
        None \<Rightarrow> Inr (0, None)
      | Some av \<Rightarrow>
          (case initialize_argv_loop av n 0 of
             Inl f \<Rightarrow> Inl f
           | Inr av' \<Rightarrow> Inr (1, Some av')))"

definition initialize_argv :: "nat \<Rightarrow> argv option \<Rightarrow> fault + (int \<times> argv option)" where
  "initialize_argv MAXARGS argv = initialize_argv_n argv MAXARGS"

definition free_instruction ::
  "heap \<Rightarrow> Instruction_mem option \<Rightarrow> fault + (heap \<times> Instruction_mem option)" where
  "free_instruction h inst =
     (case inst of
        None \<Rightarrow> Inr (h, None)
      | Some i \<Rightarrow>
          (case c_free h (instruct_ptr i) of
             Inl f \<Rightarrow> Inl f
           | Inr h1 \<Rightarrow>
               (let i1 = i\<lparr>instruct_ptr := None\<rparr>
                in case c_free h1 (file_ptr i1) of
                     Inl f \<Rightarrow> Inl f
                   | Inr h2 \<Rightarrow> Inr (h2, Some (i1\<lparr>file_ptr := None\<rparr>)))))"

lemma strtok_shorter:
  "strtok s delim = Some (tok, rest) \<Longrightarrow> length rest < length s"
proof -
  assume a: "strtok s delim = Some (tok, rest)"
  let ?s1 = "dropWhile (\<lambda>c. c \<in> set delim) s"
  let ?s2 = "dropWhile (\<lambda>c. c \<notin> set delim) ?s1"
  from a have ne: "?s1 \<noteq> []"
    unfolding strtok_def Let_def by (simp split: if_splits)
  from a have r: "rest = drop 1 ?s2"
    unfolding strtok_def Let_def by (simp split: if_splits)
  have "length ?s2 \<le> length ?s1"
    by (rule length_dropWhile_le)
  moreover have "length ?s1 \<le> length s"
    by (rule length_dropWhile_le)
  moreover have "0 < length ?s1"
    using ne length_greater_0_conv by blast
  ultimately show ?thesis
    unfolding r length_drop by linarith
qed

text \<open>The loop of step 2 of \<^verbatim>\<open>parse_n\<close>, entered with a token in hand: \<open>p_tok\<close> is the
  current token, \<open>rest\<close> the text \<^verbatim>\<open>strtok(NULL, " ")\<close> continues from.\<close>

function tokenize_loop :: "nat \<Rightarrow> string \<Rightarrow> string \<Rightarrow> nat \<Rightarrow> argv \<Rightarrow> fault + argv" where
  "tokenize_loop n p_tok rest index argv =
     (if length argv \<le> index then Inl Argv_Out_Of_Bounds
      else (case strtok rest '' '' of
              None \<Rightarrow> Inr (argv[index := string_copy (Some p_tok)])
            | Some (p_tok', rest') \<Rightarrow>
                if Suc index \<ge> n then Inr (argv[index := string_copy (Some p_tok)])
                else tokenize_loop n p_tok' rest' (Suc index)
                       (argv[index := string_copy (Some p_tok)])))"
  by pat_completeness auto
termination
proof (relation "measure (\<lambda>(n, p_tok, rest, index, argv). length rest)")
  show "wf (measure (\<lambda>(n, p_tok, rest, index, argv). length rest))"
    by simp
next
  fix n :: nat and p_tok rest :: string and index :: nat and argv :: argv and x2 x y
  assume "strtok rest '' '' = Some x2" "(x, y) = x2"
  then have "strtok rest '' '' = Some (x, y)"
    by simp
  then have "length y < length rest"
    by (rule strtok_shorter)
  then show "((n, x, y, Suc index, argv[index := string_copy (Some p_tok)]),
              n, p_tok, rest, index, argv)
       \<in> measure (\<lambda>(n, p_tok, rest, index, argv). length rest)"
    by simp
qed

declare tokenize_loop.simps [simp del]
declare initialize_argv_loop.simps [simp del]

definition parse_n ::
  "nat \<Rightarrow> string option \<Rightarrow> Instruction option \<Rightarrow> argv option \<Rightarrow> nat
     \<Rightarrow> fault + (Instruction option \<times> argv option)" where
  "parse_n MAXLINE cmd_line inst argv n =
     (case (cmd_line, inst, argv) of
        (Some line, Some i, Some av) \<Rightarrow>
          (let i0 = i\<lparr>instruct := None, id' := 0, file' := None\<rparr>
           in case c_str (strncpy line MAXLINE) of
                None \<Rightarrow> Inl Buffer_Overread
              | Some buffer \<Rightarrow>
                  (case strtok buffer '' '' of
                     None \<Rightarrow> Inr (Some i0, Some av)
                   | Some (p_tok, rest) \<Rightarrow>
                       (case tokenize_loop n p_tok rest 0 av of
                          Inl f \<Rightarrow> Inl f
                        | Inr av1 \<Rightarrow>
                            if length av1 < 3 then Inl Argv_Out_Of_Bounds
                            else
                              (let i1 = i0\<lparr>instruct := string_copy (av1 ! 0)\<rparr>;
                                   i2 = (case snd (parse_id_token (av1 ! 1) (instruct i1) (Some (id' i1))) of
                                           Some v \<Rightarrow> i1\<lparr>id' := v\<rparr>
                                         | None \<Rightarrow> i1);
                                   i3 = (case snd (parse_file_token (av1 ! 2) (instruct i2)
                                                     (Some (file' i2))) of
                                           Some f \<Rightarrow> i2\<lparr>file' := f\<rparr>
                                         | None \<Rightarrow> i2)
                               in Inr (Some i3,
                                       Some (if contains (instruct i3) instructs_list_full
                                             then free_argv_str av1 else av1))))))
      | _ \<Rightarrow> Inr (inst, argv))"

definition parse ::
  "nat \<Rightarrow> nat \<Rightarrow> string option \<Rightarrow> Instruction option \<Rightarrow> argv option
     \<Rightarrow> fault + (Instruction option \<times> argv option)" where
  "parse MAXARGS MAXLINE cmd_line inst argv =
     (case initialize_argv_n argv MAXARGS of
        Inl f \<Rightarrow> Inl f
      | Inr (r, argv1) \<Rightarrow> parse_n MAXLINE cmd_line inst argv1 (MAXARGS - 1))"

subsection \<open>The tokens of a line\<close>

text \<open>All the tokens \<^verbatim>\<open>strtok\<close> delivers from a text, in order, when it is called until
  it returns null with the delimiter \<^verbatim>\<open>" "\<close> of \<^verbatim>\<open>parse_n\<close>.\<close>

function tokens :: "string \<Rightarrow> string list" where
  "tokens s = (case strtok s '' '' of None \<Rightarrow> [] | Some (tok, rest) \<Rightarrow> tok # tokens rest)"
  by pat_completeness auto
termination
proof (relation "measure length")
  show "wf (measure length)"
    by simp
next
  fix s :: string and x2 x y
  assume "strtok s '' '' = Some x2" "(x, y) = x2"
  then have "strtok s '' '' = Some (x, y)"
    by simp
  then have "length y < length s"
    by (rule strtok_shorter)
  then show "(y, s) \<in> measure length"
    by simp
qed

declare tokens.simps [simp del]

subsection \<open>The spec's notion of an integer token\<close>

text \<open>The spec's "syntactically complete base-10 integer": an optional leading \<open>+\<close> or
  \<open>-\<close>, then one digit or more, and nothing before, between or after them.\<close>

definition spec_integer_token :: "string \<Rightarrow> bool" where
  "spec_integer_token s =
     (case s of
        [] \<Rightarrow> False
      | c # r \<Rightarrow> if c = CHR ''+'' \<or> c = CHR ''-'' then r \<noteq> [] \<and> list_all isdigit r
                 else list_all isdigit s)"

subsection \<open>The argv array after the tokenizing loop\<close>

text \<open>The array \<^verbatim>\<open>parse_n\<close> has built when its loop ends, started on an array whose
  first \<open>MAXARGS\<close> slots \<^verbatim>\<open>initialize_argv_n\<close> has reset: the first \<open>MAXARGS - 1\<close>
  tokens, then null slots up to \<open>MAXARGS\<close>, then the slots the caller's array has beyond
  \<open>MAXARGS\<close>, untouched.\<close>

definition stored_argv :: "nat \<Rightarrow> string list \<Rightarrow> argv \<Rightarrow> argv" where
  "stored_argv MAXARGS toks av =
     map Some (take (MAXARGS - 1) toks)
     @ replicate (MAXARGS - length (take (MAXARGS - 1) toks)) None
     @ drop MAXARGS av"

subsection \<open>A null-terminated token buffer\<close>

text \<open>The buffer is the first \<open>MAXARGS\<close> slots of argv; its live tokens are the slots
  before the first null one. The buffer is null-terminated within its capacity when it
  has all its \<open>MAXARGS\<close> slots, at most \<open>MAXARGS - 1\<close> of them are live, so that a null
  slot follows the last live one, and every slot from that one on is null.\<close>

definition null_terminated :: "nat \<Rightarrow> argv \<Rightarrow> bool" where
  "null_terminated MAXARGS av =
     (let buf = take MAXARGS av;
          live = takeWhile (\<lambda>s. s \<noteq> None) buf
      in length buf = MAXARGS
         \<and> length live \<le> MAXARGS - 1
         \<and> length live < MAXARGS
         \<and> list_all (\<lambda>s. s = None) (drop (length live) buf))"

section \<open>Properties of the helpers\<close>

lemma tokens_None: "strtok s '' '' = None \<Longrightarrow> tokens s = []"
  by (subst tokens.simps) simp

lemma tokens_Some: "strtok s '' '' = Some (tok, rest) \<Longrightarrow> tokens s = tok # tokens rest"
  by (subst tokens.simps) simp

lemma initialize_argv_loop_eq:
  "i \<le> n \<Longrightarrow> n \<le> length av \<Longrightarrow>
   initialize_argv_loop av n i = Inr (take i av @ replicate (n - i) None @ drop n av)"
proof (induction av n i rule: initialize_argv_loop.induct)
  case (1 argv n i)
  show ?case
  proof (cases "i < n")
    case True
    then have il: "i < length argv"
      using "1.prems" by simp
    have "initialize_argv_loop argv n i = initialize_argv_loop (argv[i := None]) n (Suc i)"
      using True il by (subst initialize_argv_loop.simps) simp
    also have "\<dots> = Inr (take (Suc i) (argv[i := None]) @ replicate (n - Suc i) None
                          @ drop n (argv[i := None]))"
      using True il "1.prems" by (intro "1.IH") simp_all
    also have "take (Suc i) (argv[i := None]) = take i argv @ [None]"
      using il by (simp add: take_Suc_conv_app_nth)
    also have "drop n (argv[i := None]) = drop n argv"
      using True by simp
    also have "(take i argv @ [None]) @ replicate (n - Suc i) None @ drop n argv
               = take i argv @ replicate (n - i) None @ drop n argv"
      using True by (simp add: replicate_Suc [symmetric] Suc_diff_Suc del: replicate_Suc)
    finally show ?thesis .
  next
    case False
    then have "i = n"
      using "1.prems" by simp
    then show ?thesis
      by (subst initialize_argv_loop.simps) simp
  qed
qed

lemma initialize_argv_loop_fault:
  "i \<le> length av \<Longrightarrow> length av < n \<Longrightarrow> initialize_argv_loop av n i = Inl Argv_Out_Of_Bounds"
proof (induction av n i rule: initialize_argv_loop.induct)
  case (1 argv n i)
  show ?case
  proof (cases "i < length argv")
    case True
    then show ?thesis
      using "1.prems" "1.IH" by (subst initialize_argv_loop.simps) simp
  next
    case False
    then show ?thesis
      using "1.prems" by (subst initialize_argv_loop.simps) simp
  qed
qed

lemma tokenize_loop_eq:
  "index + length (p_tok # take (n - Suc index) (tokens rest)) \<le> length av \<Longrightarrow>
   tokenize_loop n p_tok rest index av =
     Inr (take index av @ map Some (p_tok # take (n - Suc index) (tokens rest))
          @ drop (index + length (p_tok # take (n - Suc index) (tokens rest))) av)"
proof (induction n p_tok rest index av rule: tokenize_loop.induct)
  case (1 n p_tok rest index argv)
  from "1.prems" have il: "index < length argv"
    by simp
  have upd: "argv[index := Some p_tok] = take index argv @ [Some p_tok] @ drop (Suc index) argv"
    using il by (simp add: upd_conv_take_nth_drop)
  show ?case
  proof (cases "strtok rest '' ''")
    case None
    then show ?thesis
      using il upd by (subst tokenize_loop.simps) (simp add: tokens_None string_copy_def)
  next
    case (Some a)
    obtain t' r' where a: "a = (t', r')"
      by (cases a)
    have tk: "tokens rest = t' # tokens r'"
      using Some a by (simp add: tokens_Some)
    show ?thesis
    proof (cases "n \<le> Suc index")
      case True
      then show ?thesis
        using il upd Some a by (subst tokenize_loop.simps) (simp add: string_copy_def)
    next
      case False
      then have d: "n - Suc index = Suc (n - Suc (Suc index))"
        by simp
      have pre: "Suc index + length (t' # take (n - Suc (Suc index)) (tokens r'))
                 \<le> length (argv[index := string_copy (Some p_tok)])"
        using "1.prems" tk d by simp
      have "tokenize_loop n p_tok rest index argv
            = tokenize_loop n t' r' (Suc index) (argv[index := string_copy (Some p_tok)])"
        using il Some a False by (subst tokenize_loop.simps) simp
      also have "\<dots> = Inr (take (Suc index) (argv[index := string_copy (Some p_tok)])
                     @ map Some (t' # take (n - Suc (Suc index)) (tokens r'))
                     @ drop (Suc index + length (t' # take (n - Suc (Suc index)) (tokens r')))
                         (argv[index := string_copy (Some p_tok)]))"
        using Some a False pre by (intro "1.IH") simp_all
      also have "take (Suc index) (argv[index := string_copy (Some p_tok)])
                 = take index argv @ [Some p_tok]"
        using il by (simp add: take_Suc_conv_app_nth string_copy_def)
      also have "drop (Suc index + length (t' # take (n - Suc (Suc index)) (tokens r')))
                   (argv[index := string_copy (Some p_tok)])
                 = drop (index + length (p_tok # take (n - Suc index) (tokens rest))) argv"
        using tk d by simp
      finally show ?thesis
        using tk d by simp
    qed
  qed
qed


lemma c_str_strncpy_fits:
  assumes "NUL \<notin> set line" and "length line < MAXLINE"
  shows "c_str (strncpy line MAXLINE) = Some line"
proof -
  from assms(2) obtain k where k: "MAXLINE - length line = Suc k"
    by (cases "MAXLINE - length line") simp_all
  have b: "strncpy line MAXLINE = line @ NUL # replicate k NUL"
    using assms(2) k by (simp add: strncpy_def)
  have "takeWhile (\<lambda>c. c \<noteq> NUL) (line @ NUL # replicate k NUL) = line"
    using assms(1) by (subst takeWhile_append2) auto
  then show ?thesis
    unfolding b c_str_def by simp
qed

lemma c_str_strncpy_overlong:
  assumes "NUL \<notin> set line" and "MAXLINE \<le> length line"
  shows "c_str (strncpy line MAXLINE) = None"
proof -
  have b: "strncpy line MAXLINE = take MAXLINE line"
    using assms(2) by (simp add: strncpy_def)
  have "NUL \<notin> set (take MAXLINE line)"
    using assms(1) by (meson in_set_takeD)
  then show ?thesis
    unfolding b c_str_def by simp
qed

lemma strncmp_eq_iff:
  assumes "NUL \<notin> set a"
  shows "strncmp_eq a b (Suc (length b)) \<longleftrightarrow> a = b"
proof
  assume e: "strncmp_eq a b (Suc (length b))"
  then have t: "take (Suc (length b)) (a @ [NUL]) = b @ [NUL]"
    by (simp add: strncmp_eq_def)
  show "a = b"
  proof (cases "length a \<le> length b")
    case True
    then have "take (Suc (length b)) (a @ [NUL]) = a @ [NUL]"
      by simp
    with t show ?thesis
      by simp
  next
    case False
    then have "take (Suc (length b)) (a @ [NUL]) = take (Suc (length b)) a"
      by simp
    with t have "b @ [NUL] = take (Suc (length b)) a"
      by simp
    then have "NUL \<in> set (take (Suc (length b)) a)"
      by (metis in_set_conv_decomp)
    then have "NUL \<in> set a"
      by (rule in_set_takeD)
    with assms show ?thesis
      by simp
  qed
next
  assume "a = b"
  then show "strncmp_eq a b (Suc (length b))"
    by (simp add: strncmp_eq_def)
qed

lemma contains_iff:
  "NUL \<notin> set needle \<Longrightarrow> contains (Some needle) haystack \<longleftrightarrow> needle \<in> set haystack"
  by (induction haystack) (auto simp: strncmp_eq_iff)

lemma strtok_sets:
  assumes "strtok s delim = Some (tok, rest)"
  shows "set tok \<subseteq> set s" and "set rest \<subseteq> set s"
proof -
  let ?s1 = "dropWhile (\<lambda>c. c \<in> set delim) s"
  from assms have t: "tok = takeWhile (\<lambda>c. c \<notin> set delim) ?s1"
    and r: "rest = drop 1 (dropWhile (\<lambda>c. c \<notin> set delim) ?s1)"
    unfolding strtok_def Let_def by (simp_all split: if_splits)
  have "set tok \<subseteq> set ?s1"
    unfolding t by (rule set_takeWhileD [THEN conjunct1, THEN subsetI])
  also have "set ?s1 \<subseteq> set s"
    by (rule set_dropWhileD [THEN subsetI])
  finally show "set tok \<subseteq> set s" .
  have "set rest \<subseteq> set (dropWhile (\<lambda>c. c \<notin> set delim) ?s1)"
    unfolding r by (rule set_drop_subset)
  also have "\<dots> \<subseteq> set ?s1"
    by (rule set_dropWhileD [THEN subsetI])
  also have "set ?s1 \<subseteq> set s"
    by (rule set_dropWhileD [THEN subsetI])
  finally show "set rest \<subseteq> set s" .
qed

lemma tokens_chars: "t \<in> set (tokens s) \<Longrightarrow> set t \<subseteq> set s"
proof (induction s arbitrary: t rule: tokens.induct)
  case (1 s)
  show ?case
  proof (cases "strtok s '' ''")
    case None
    with "1.prems" show ?thesis
      by (simp add: tokens_None)
  next
    case (Some a)
    obtain tok rest where a: "a = (tok, rest)"
      by (cases a)
    from Some a have tk: "tokens s = tok # tokens rest"
      by (simp add: tokens_Some)
    from Some a have ss: "set tok \<subseteq> set s" "set rest \<subseteq> set s"
      by (auto dest: strtok_sets)
    from "1.prems" tk have "t = tok \<or> t \<in> set (tokens rest)"
      by simp
    then show ?thesis
    proof
      assume "t = tok"
      with ss show ?thesis by simp
    next
      assume "t \<in> set (tokens rest)"
      then have "set t \<subseteq> set rest"
        using Some a by (intro "1.IH") simp_all
      with ss show ?thesis by blast
    qed
  qed
qed

text \<open>What the tokens of a text are: none is empty, none holds a space, and together
  they are the characters of the text that are not spaces, in order.\<close>

lemma strtok_None_iff: "strtok s '' '' = None \<longleftrightarrow> set s \<subseteq> {CHR '' ''}"
  unfolding strtok_def Let_def by (auto simp: dropWhile_eq_Nil_conv)

lemma strtok_Some_parts:
  assumes "strtok s '' '' = Some (tok, rest)"
  shows "tok \<noteq> []" and "CHR '' '' \<notin> set tok"
    and "filter (\<lambda>c. c \<noteq> CHR '' '') s = tok @ filter (\<lambda>c. c \<noteq> CHR '' '') rest"
proof -
  let ?sp = "\<lambda>c. c \<in> set '' ''"
  let ?ns = "\<lambda>c. c \<notin> set '' ''"
  let ?s1 = "dropWhile ?sp s"
  let ?s2 = "dropWhile ?ns ?s1"
  from assms have ne: "?s1 \<noteq> []"
    unfolding strtok_def Let_def by (simp split: if_splits)
  from assms have t: "tok = takeWhile ?ns ?s1"
    unfolding strtok_def Let_def by (simp split: if_splits)
  from assms have r: "rest = drop 1 ?s2"
    unfolding strtok_def Let_def by (simp split: if_splits)
  have "\<not> ?sp (hd ?s1)"
    using ne by (rule hd_dropWhile)
  then show "tok \<noteq> []"
    unfolding t using ne by (cases ?s1) auto
  have "\<forall>c \<in> set tok. ?ns c"
    unfolding t by (auto dest: set_takeWhileD)
  then show ns: "CHR '' '' \<notin> set tok"
    by auto
  have f0: "filter (\<lambda>c. c \<noteq> CHR '' '') (takeWhile ?sp s) = []"
    by (auto simp: filter_empty_conv dest: set_takeWhileD)
  have f1: "filter (\<lambda>c. c \<noteq> CHR '' '') tok = tok"
    using ns by (auto simp: filter_id_conv)
  have f2: "filter (\<lambda>c. c \<noteq> CHR '' '') ?s2 = filter (\<lambda>c. c \<noteq> CHR '' '') (drop 1 ?s2)"
  proof (cases ?s2)
    case Nil
    then show ?thesis
      by (simp only: drop_Nil)
  next
    case (Cons c cs)
    have "?s2 \<noteq> []"
      unfolding Cons by simp
    then have "\<not> ?ns (hd ?s2)"
      by (rule hd_dropWhile)
    then have "c = CHR '' ''"
      unfolding Cons by simp
    then show ?thesis
      unfolding Cons by simp
  qed
  have "s = takeWhile ?sp s @ ?s1"
    by simp
  also have "?s1 = tok @ ?s2"
    unfolding t by simp
  finally have "s = takeWhile ?sp s @ tok @ ?s2" .
  then have "filter (\<lambda>c. c \<noteq> CHR '' '') s
             = filter (\<lambda>c. c \<noteq> CHR '' '') (takeWhile ?sp s @ tok @ ?s2)"
    by simp
  also have "\<dots> = tok @ filter (\<lambda>c. c \<noteq> CHR '' '') rest"
    unfolding filter_append f0 f1 f2 r by simp
  finally show "filter (\<lambda>c. c \<noteq> CHR '' '') s = tok @ filter (\<lambda>c. c \<noteq> CHR '' '') rest" .
qed

lemma tokens_wellformed: "t \<in> set (tokens s) \<Longrightarrow> t \<noteq> [] \<and> CHR '' '' \<notin> set t"
proof (induction s arbitrary: t rule: tokens.induct)
  case (1 s)
  show ?case
  proof (cases "strtok s '' ''")
    case None
    with "1.prems" show ?thesis
      by (simp add: tokens_None)
  next
    case (Some a)
    obtain tok rest where a: "a = (tok, rest)"
      by (cases a)
    from Some a have tk: "tokens s = tok # tokens rest"
      by (simp add: tokens_Some)
    from Some a have p: "tok \<noteq> []" "CHR '' '' \<notin> set tok"
      by (auto dest: strtok_Some_parts)
    from "1.prems" tk have "t = tok \<or> t \<in> set (tokens rest)"
      by simp
    then show ?thesis
    proof
      assume "t = tok"
      with p show ?thesis by simp
    next
      assume "t \<in> set (tokens rest)"
      then show ?thesis
        using Some a by (intro "1.IH") simp_all
    qed
  qed
qed

lemma concat_tokens: "concat (tokens s) = filter (\<lambda>c. c \<noteq> CHR '' '') s"
proof (induction s rule: tokens.induct)
  case (1 s)
  show ?case
  proof (cases "strtok s '' ''")
    case None
    then have "set s \<subseteq> {CHR '' ''}"
      by (simp add: strtok_None_iff)
    then have "filter (\<lambda>c. c \<noteq> CHR '' '') s = []"
      by (auto simp: filter_empty_conv)
    then show ?thesis
      using None by (simp add: tokens_None)
  next
    case (Some a)
    obtain tok rest where a: "a = (tok, rest)"
      by (cases a)
    from Some a have tk: "tokens s = tok # tokens rest"
      by (simp add: tokens_Some)
    have "concat (tokens rest) = filter (\<lambda>c. c \<noteq> CHR '' '') rest"
      using Some a by (intro "1.IH") simp_all
    then show ?thesis
      using strtok_Some_parts(3) [of s tok rest] Some a tk by simp
  qed
qed

lemma end_off_complete:
  assumes "takeWhile P s2 \<noteq> []" and "length s2 \<le> n"
  shows "(\<not> (n - length (dropWhile P s2) < n \<or> n - length (dropWhile P s2) = 0))
         \<longleftrightarrow> list_all P s2"
proof (cases "list_all P s2")
  case True
  then have "length (dropWhile P s2) = 0"
    by (simp add: list_all_iff)
  moreover have "0 < n"
    using assms by (cases s2) auto
  ultimately show ?thesis
    using True by (simp only:) simp
next
  case False
  then have "dropWhile P s2 \<noteq> []"
    by (simp add: list_all_iff)
  then have "0 < length (dropWhile P s2)"
    using length_greater_0_conv by blast
  moreover have "0 < n"
    using assms by (cases s2) auto
  ultimately show ?thesis
    using False by (simp only:) simp
qed

lemma strtol_complete:
  "(\<not> (snd (strtol tok) < length tok \<or> snd (strtol tok) = 0))
   \<longleftrightarrow> spec_integer_token (dropWhile isspace tok)"
proof -
  let ?s1 = "dropWhile isspace tok"
  have l1: "length ?s1 \<le> length tok"
    by (rule length_dropWhile_le)
  have nd: "\<not> isdigit CHR ''+''" "\<not> isdigit CHR ''-''"
    by (simp_all add: isdigit_def)
  show ?thesis
  proof (cases ?s1)
    case Nil
    show ?thesis
      unfolding strtol_def Let_def spec_integer_token_def Nil by simp
  next
    case (Cons c r)
    show ?thesis
    proof (cases "c = CHR ''+'' \<or> c = CHR ''-''")
      case True
      have st: "strtol tok = (if takeWhile isdigit r = [] then (0, 0)
                  else (max LONG_MIN (min LONG_MAX
                          (if c = CHR ''-'' then - digits_val (takeWhile isdigit r)
                           else digits_val (takeWhile isdigit r))),
                        length tok - length (dropWhile isdigit r)))"
        using Cons True unfolding strtol_def Let_def by auto
      show ?thesis
      proof (cases "takeWhile isdigit r = []")
        case e: True
        then have "r = [] \<or> \<not> isdigit (hd r)"
          by (simp add: takeWhile_eq_Nil_iff)
        then have "\<not> (r \<noteq> [] \<and> list_all isdigit r)"
          by (cases r) auto
        then show ?thesis
          using st e Cons True by (simp add: spec_integer_token_def)
      next
        case ne: False
        then have "r \<noteq> []"
          by auto
        moreover have "length r \<le> length tok"
          using l1 Cons by simp
        ultimately show ?thesis
          using st ne Cons True end_off_complete [OF ne, of "length tok"]
          by (simp add: spec_integer_token_def)
      qed
    next
      case False
      have st: "strtol tok = (if takeWhile isdigit ?s1 = [] then (0, 0)
                  else (max LONG_MIN (min LONG_MAX (digits_val (takeWhile isdigit ?s1))),
                        length tok - length (dropWhile isdigit ?s1)))"
        using Cons False unfolding strtol_def Let_def by auto
      show ?thesis
      proof (cases "takeWhile isdigit ?s1 = []")
        case e: True
        then have "\<not> isdigit c"
          using Cons by (simp split: if_splits)
        then have "\<not> list_all isdigit ?s1"
          using Cons by simp
        then show ?thesis
          using st e Cons False by (simp add: spec_integer_token_def)
      next
        case ne: False
        show ?thesis
          using st ne Cons False end_off_complete [OF ne l1]
          by (simp add: spec_integer_token_def)
      qed
    qed
  qed
qed

lemma parse_id_token_eq:
  assumes "NUL \<notin> set name"
  shows "parse_id_token p_tok (Some name) (Some old) =
           (case p_tok of
              None \<Rightarrow> (0, Some old)
            | Some tok \<Rightarrow>
                if name \<notin> set instructs_with_id then (0, Some old)
                else if spec_integer_token (dropWhile isspace tok)
                     then (1, Some (word_of_int (fst (strtol tok))))
                     else (0, Some 0))"
proof (cases p_tok)
  case None
  then show ?thesis
    by (simp add: parse_id_token_def)
next
  case (Some tok)
  obtain v e where s: "strtol tok = (v, e)"
    by (cases "strtol tok")
  have "(\<not> (e < length tok \<or> e = 0)) \<longleftrightarrow> spec_integer_token (dropWhile isspace tok)"
    using strtol_complete [of tok] s by simp
  then show ?thesis
    using Some s assms by (auto simp: parse_id_token_def contains_iff)
qed

lemma parse_file_token_eq:
  assumes "NUL \<notin> set name"
  shows "parse_file_token p_tok (Some name) (Some old) =
           (case p_tok of
              None \<Rightarrow> (0, Some old)
            | Some tok \<Rightarrow>
                if name \<notin> set instructs_with_file then (0, Some old)
                else (1, Some (Some tok)))"
  using assms by (cases p_tok) (simp_all add: parse_file_token_def contains_iff string_copy_def)

lemma tokens_Nil_strtok: "tokens s = [] \<Longrightarrow> strtok s '' '' = None"
  by (cases "strtok s '' ''") (auto simp: tokens_Some)

lemma tokens_Cons_strtok:
  "tokens s = t # ts \<Longrightarrow> \<exists>rest. strtok s '' '' = Some (t, rest) \<and> tokens rest = ts"
  by (cases "strtok s '' ''") (auto simp: tokens_Some tokens_None)

lemma initialize_argv_n_eq:
  "MAXARGS \<le> length av \<Longrightarrow>
   initialize_argv_n (Some av) MAXARGS = Inr (1, Some (replicate MAXARGS None @ drop MAXARGS av))"
  by (simp add: initialize_argv_n_def initialize_argv_loop_eq)

lemma length_stored_argv:
  "MAXARGS \<le> length av \<Longrightarrow> length (stored_argv MAXARGS toks av) = length av"
  by (simp add: stored_argv_def)

lemma stored_argv_nth:
  "k < MAXARGS \<Longrightarrow>
   stored_argv MAXARGS toks av ! k =
     (if k < MAXARGS - 1 \<and> k < length toks then Some (toks ! k) else None)"
  by (auto simp: stored_argv_def nth_append)

lemma tokenize_loop_parse:
  assumes "2 \<le> MAXARGS" and "MAXARGS \<le> length av" and "tokens rest = ts"
  shows "tokenize_loop (MAXARGS - 1) t rest 0 (replicate MAXARGS None @ drop MAXARGS av)
         = Inr (stored_argv MAXARGS (t # ts) av)"
proof -
  let ?n = "MAXARGS - 1"
  let ?st = "t # take (?n - Suc 0) (tokens rest)"
  have st: "?st = take ?n (t # ts)"
    using assms(1,3) by (cases ?n) simp_all
  have len: "length ?st \<le> MAXARGS"
    unfolding st using assms(1) by simp
  have "tokenize_loop ?n t rest 0 (replicate MAXARGS None @ drop MAXARGS av)
        = Inr (take 0 (replicate MAXARGS None @ drop MAXARGS av) @ map Some ?st
               @ drop (0 + length ?st) (replicate MAXARGS None @ drop MAXARGS av))"
    using len assms(2) by (intro tokenize_loop_eq) simp
  also have "drop (0 + length ?st) (replicate MAXARGS None @ drop MAXARGS av)
             = replicate (MAXARGS - length ?st) None @ drop MAXARGS av"
    using len by simp
  finally show ?thesis
    unfolding st stored_argv_def by simp
qed

lemma parse_no_tokens:
  assumes "NUL \<notin> set line" and "length line < MAXLINE" and "MAXARGS \<le> length av"
    and "tokens line = []"
  shows "parse MAXARGS MAXLINE (Some line) (Some i) (Some av) =
           Inr (Some (i\<lparr>instruct := None, id' := 0, file' := None\<rparr>),
                Some (replicate MAXARGS None @ drop MAXARGS av))"
  using assms
  by (simp add: parse_def initialize_argv_n_eq parse_n_def c_str_strncpy_fits
      tokens_Nil_strtok)

lemma parse_tokens:
  assumes "NUL \<notin> set line" and "length line < MAXLINE"
    and "3 \<le> MAXARGS" and "MAXARGS \<le> length av"
    and "tokens line = t # ts"
  shows "parse MAXARGS MAXLINE (Some line) (Some i) (Some av) =
           Inr (Some (i\<lparr>instruct := Some t,
                        id' := (case stored_argv MAXARGS (t # ts) av ! 1 of
                                  None \<Rightarrow> 0
                                | Some tok \<Rightarrow>
                                    if t \<in> set instructs_with_id
                                       \<and> spec_integer_token (dropWhile isspace tok)
                                    then word_of_int (fst (strtol tok)) else 0),
                        file' := (case stored_argv MAXARGS (t # ts) av ! 2 of
                                    None \<Rightarrow> None
                                  | Some tok \<Rightarrow>
                                      if t \<in> set instructs_with_file then Some tok else None)\<rparr>),
                Some (if t \<in> set instructs_list_full
                      then map (\<lambda>_. None) (stored_argv MAXARGS (t # ts) av)
                      else stored_argv MAXARGS (t # ts) av))"
proof -
  let ?av1 = "stored_argv MAXARGS (t # ts) av"
  from assms(5) obtain rest where st: "strtok line '' '' = Some (t, rest)" and r: "tokens rest = ts"
    by (auto dest: tokens_Cons_strtok)
  have "t \<in> set (tokens line)"
    using assms(5) by simp
  then have "set t \<subseteq> set line"
    by (rule tokens_chars)
  then have nul: "NUL \<notin> set t"
    using assms(1) by blast
  have tl: "tokenize_loop (MAXARGS - 1) t rest 0 (replicate MAXARGS None @ drop MAXARGS av)
            = Inr ?av1"
    using assms(3,4) r by (intro tokenize_loop_parse) simp_all
  have len: "length ?av1 = length av"
    using assms(4) by (rule length_stored_argv)
  have a0: "?av1 ! 0 = Some t"
    using assms(3) by (simp add: stored_argv_nth)
  show ?thesis
    using assms(1-4) st tl len a0 nul
    by (simp add: parse_def initialize_argv_n_eq parse_n_def c_str_strncpy_fits Let_def
        string_copy_def parse_id_token_eq parse_file_token_eq contains_iff free_argv_str_def
        split: option.split)
qed

lemma take_stored_argv:
  "MAXARGS \<le> length av \<Longrightarrow>
   take MAXARGS (stored_argv MAXARGS toks av) =
     map Some (take (MAXARGS - 1) toks)
     @ replicate (MAXARGS - length (take (MAXARGS - 1) toks)) None"
  by (simp add: stored_argv_def)

lemma cleared_stored_argv:
  assumes "MAXARGS \<le> length av"
  shows "map (\<lambda>_. None) (stored_argv MAXARGS toks av) = replicate (length av) None"
proof -
  have "map (\<lambda>_. None) (stored_argv MAXARGS toks av)
        = replicate (length (stored_argv MAXARGS toks av)) None"
    by (rule map_replicate_const)
  then show ?thesis
    using assms by (simp add: length_stored_argv)
qed

lemma null_terminated_prefix:
  assumes "length xs < MAXARGS"
    and "take MAXARGS av = map Some xs @ replicate (MAXARGS - length xs) None"
  shows "null_terminated MAXARGS av"
proof -
  let ?buf = "map Some xs @ replicate (MAXARGS - length xs) None"
  have live: "takeWhile (\<lambda>s. s \<noteq> None) ?buf = map Some xs"
    by (subst takeWhile_append2) (auto simp: takeWhile_replicate)
  have len: "length ?buf = MAXARGS"
    using assms(1) by simp
  have rest: "drop (length xs) ?buf = replicate (MAXARGS - length xs) None"
    by simp
  show ?thesis
    unfolding null_terminated_def Let_def assms(2) live
    using assms(1) len rest by (simp add: list_all_iff)
qed

lemma null_terminated_cleared:
  assumes "0 < MAXARGS" and "take MAXARGS av = replicate MAXARGS None"
  shows "null_terminated MAXARGS av"
  using null_terminated_prefix [of "[]" MAXARGS av] assms by simp

lemma parse_null_eq:
  assumes "cmd_line = None \<or> inst = None" and "MAXARGS \<le> length av"
  shows "parse MAXARGS MAXLINE cmd_line inst (Some av) =
           Inr (inst, Some (replicate MAXARGS None @ drop MAXARGS av))"
  using assms
  by (auto simp: parse_def initialize_argv_n_eq parse_n_def split: option.splits)

lemma parse_null_argv:
  "parse MAXARGS MAXLINE cmd_line inst None = Inr (inst, None)"
  by (simp add: parse_def initialize_argv_n_def parse_n_def split: option.splits)

lemma tokens_spaces:
  assumes "set line \<subseteq> {CHR '' ''}"
  shows "tokens line = []"
proof -
  have "dropWhile (\<lambda>c. c \<in> set '' '') line = []"
    using assms by auto
  then have "strtok line '' '' = None"
    unfolding strtok_def Let_def by simp
  then show ?thesis
    by (rule tokens_None)
qed

lemma parse_overlong:
  assumes "NUL \<notin> set line" and "MAXLINE \<le> length line" and "MAXARGS \<le> length av"
  shows "parse MAXARGS MAXLINE (Some line) (Some i) (Some av) = Inl Buffer_Overread"
  using assms
  by (simp add: parse_def initialize_argv_n_eq parse_n_def c_str_strncpy_overlong)

lemma free_instruction_cleared:
  "free_instruction h (Some (i\<lparr>instruct_ptr := None, file_ptr := None\<rparr>))
   = Inr (h, Some (i\<lparr>instruct_ptr := None, file_ptr := None\<rparr>))"
  by (simp add: free_instruction_def c_free_def)

lemma free_instruction_result:
  assumes "free_instruction h (Some i) = Inr (h', inst')"
  shows "inst' = Some (i\<lparr>instruct_ptr := None, file_ptr := None\<rparr>)"
  using assms
  by (auto simp: free_instruction_def Let_def split: sum.splits)

section \<open>The claims\<close>

subsection \<open>Releasing an instruction\<close>

text \<open>
  Claim C8. Releasing an Instruction is idempotent. \<open>free_instruction\<close> on an Instruction
  that is already cleared (\<open>instruct\<close> and \<open>file\<close> both null) does not fail and leaves
  the Instruction, and the heap, as they were: \<^verbatim>\<open>free(NULL)\<close> does nothing. Whenever a
  release returns, releasing again gives the same state, since each pointer is reset
  right after its block is freed. A null Instruction pointer is left alone. And a
  release does return when each string field is null or owns a block of its own. The
  \<open>id\<close> field is not touched.
\<close>

theorem free_instruction_idempotent:
  "free_instruction h (Some (i\<lparr>instruct_ptr := None, file_ptr := None\<rparr>))
     = Inr (h, Some (i\<lparr>instruct_ptr := None, file_ptr := None\<rparr>))
   \<and> free_instruction h None = Inr (h, None)
   \<and> (free_instruction h inst = Inr (h', inst')
        \<longrightarrow> free_instruction h' inst' = Inr (h', inst'))
   \<and> ((\<forall>a. instruct_ptr i = Some a \<longrightarrow> a \<in> dom h)
        \<and> (\<forall>a. file_ptr i = Some a \<longrightarrow> a \<in> dom h \<and> instruct_ptr i \<noteq> Some a)
        \<longrightarrow> (\<exists>h1. free_instruction h (Some i)
                     = Inr (h1, Some (i\<lparr>instruct_ptr := None, file_ptr := None\<rparr>))))"
proof (intro conjI impI)
  show "free_instruction h (Some (i\<lparr>instruct_ptr := None, file_ptr := None\<rparr>))
     = Inr (h, Some (i\<lparr>instruct_ptr := None, file_ptr := None\<rparr>))"
    by (rule free_instruction_cleared)
  show "free_instruction h None = Inr (h, None)"
    by (simp add: free_instruction_def)
next
  assume a: "free_instruction h inst = Inr (h', inst')"
  show "free_instruction h' inst' = Inr (h', inst')"
  proof (cases inst)
    case None
    with a show ?thesis
      by (simp add: free_instruction_def)
  next
    case (Some j)
    with a have "inst' = Some (j\<lparr>instruct_ptr := None, file_ptr := None\<rparr>)"
      by (auto dest: free_instruction_result)
    then show ?thesis
      by (simp add: free_instruction_cleared)
  qed
next
  assume o: "(\<forall>a. instruct_ptr i = Some a \<longrightarrow> a \<in> dom h)
        \<and> (\<forall>a. file_ptr i = Some a \<longrightarrow> a \<in> dom h \<and> instruct_ptr i \<noteq> Some a)"
  then show "\<exists>h1. free_instruction h (Some i)
                     = Inr (h1, Some (i\<lparr>instruct_ptr := None, file_ptr := None\<rparr>))"
    by (cases "instruct_ptr i"; cases "file_ptr i")
       (auto simp: free_instruction_def c_free_def Let_def split: option.splits)
qed

text \<open>The theorem on an Instruction that owns two blocks: the first release frees both
  and clears the fields, the second changes nothing.\<close>

theorem free_instruction_idempotent_witness:
  "free_instruction [1 \<mapsto> ''run'', 2 \<mapsto> ''f'']
     (Some \<lparr>instruct_ptr = Some 1, id_val = 7, file_ptr = Some 2\<rparr>)
   = Inr (Map.empty, Some \<lparr>instruct_ptr = None, id_val = 7, file_ptr = None\<rparr>)
   \<and> free_instruction Map.empty (Some \<lparr>instruct_ptr = None, id_val = 7, file_ptr = None\<rparr>)
     = Inr (Map.empty, Some \<lparr>instruct_ptr = None, id_val = 7, file_ptr = None\<rparr>)"
proof -
  have first: "free_instruction [1 \<mapsto> ''run'', 2 \<mapsto> ''f'']
     (Some \<lparr>instruct_ptr = Some 1, id_val = 7, file_ptr = Some 2\<rparr>)
   = Inr (Map.empty, Some \<lparr>instruct_ptr = None, id_val = 7, file_ptr = None\<rparr>)"
    by (simp add: free_instruction_def c_free_def fun_eq_iff)
  from free_instruction_idempotent [of "[1 \<mapsto> ''run'', 2 \<mapsto> ''f'']"
      "\<lparr>instruct_ptr = Some 1, id_val = 7, file_ptr = Some 2\<rparr>"
      "Some \<lparr>instruct_ptr = Some 1, id_val = 7, file_ptr = Some 2\<rparr>"
      Map.empty "Some \<lparr>instruct_ptr = None, id_val = 7, file_ptr = None\<rparr>"] first
  show ?thesis
    by simp
qed

subsection \<open>The id field\<close>

text \<open>
  Claim C1, as the code has it. For a call inside the domain C defines (the line is a C
  string shorter than \<open>MAXLINE\<close>, the argv array has the \<open>MAXARGS\<close> slots
  \<^verbatim>\<open>initialize_argv_n\<close> resets, \<open>MAXARGS\<close> being 3 or more) whose line has a token,
  parse returns, and the id field is populated exactly when the first token is in
  \<open>instructs_with_id\<close>, a second token exists, and that token is, after the white space
  \<^verbatim>\<open>strtol\<close> skips in front (tab, newline, vertical tab, form feed, carriage
  return; a token holds no space), an optional sign and one digit or more with nothing
  behind. The id is then the value \<^verbatim>\<open>strtol\<close> returns, narrowed to \<^verbatim>\<open>int\<close>. In every
  other case, a partial numeric parse included, the id is 0.
\<close>

theorem parse_id_field:
  assumes "NUL \<notin> set line" and "length line < MAXLINE"
    and "3 \<le> MAXARGS" and "MAXARGS \<le> length av"
    and "tokens line = toks" and "toks \<noteq> []"
  shows "\<exists>inst' av'.
           parse MAXARGS MAXLINE (Some line) (Some i) (Some av) = Inr (Some inst', Some av')
           \<and> id' inst' =
               (if hd toks \<in> set instructs_with_id \<and> 2 \<le> length toks
                   \<and> spec_integer_token (dropWhile isspace (toks ! 1))
                then word_of_int (fst (strtol (toks ! 1))) else 0)"
proof -
  from assms(6) obtain t ts where toks: "toks = t # ts"
    by (cases toks) auto
  have "Suc 0 < MAXARGS - Suc 0"
    using assms(3) by arith
  then have n1: "stored_argv MAXARGS (t # ts) av ! 1 = (if ts = [] then None else Some (ts ! 0))"
    using assms(3) by (simp add: stored_argv_nth)
  show ?thesis
    using parse_tokens [OF assms(1-4), of t ts i] assms(5) toks n1
    by (cases ts) simp_all
qed

text \<open>The theorem at \<^verbatim>\<open>"run 42"\<close>, with 128 argv slots and a scratch buffer of 1024
  bytes: the id is 42.\<close>

theorem parse_id_field_witness:
  "\<exists>inst' av'.
     parse 128 1024 (Some ''run 42'') (Some \<lparr>instruct = None, id' = 0, file' = None\<rparr>)
       (Some (replicate 128 None)) = Inr (Some inst', Some av')
     \<and> id' inst' = 42"
  using parse_id_field [of "''run 42''" 1024 128 "replicate 128 None" "[''run'', ''42'']"
      "\<lparr>instruct = None, id' = 0, file' = None\<rparr>"]
  by (simp add: tokens.simps strtok_def NUL_def instructs_with_id_def spec_integer_token_def
      isdigit_def isspace_def strtol_def digits_val_def LONG_MAX_def LONG_MIN_def)

text \<open>
  The claim as the spec words it, with no character allowed in front of the sign or the
  digits, fails: the second token of \<^verbatim>\<open>"run \t42"\<close> starts with a tab, so it is not an
  integer in the spec's sense, and yet the id is 42. The constants 128 and 1024 stand
  for \<open>MAXARGS\<close> and \<open>MAXLINE\<close>; by \<open>parse_tokens\<close> any other admissible pair gives
  the same fields.
\<close>

theorem parse_id_strict_counterexample:
  "parse 128 1024 (Some (''run '' @ [CHR 0x09] @ ''42''))
     (Some \<lparr>instruct = None, id' = 0, file' = None\<rparr>) (Some (replicate 128 None))
   = Inr (Some \<lparr>instruct = Some ''run'', id' = 42, file' = None\<rparr>, Some (replicate 128 None))
   \<and> tokens (''run '' @ [CHR 0x09] @ ''42'') = [''run'', [CHR 0x09] @ ''42'']
   \<and> ''run'' \<in> set instructs_with_id
   \<and> \<not> spec_integer_token ([CHR 0x09] @ ''42'')"
proof -
  have tk: "tokens (''run '' @ [CHR 0x09] @ ''42'') = [''run'', [CHR 0x09] @ ''42'']"
    by (simp add: tokens.simps strtok_def)
  have nul: "NUL \<notin> set (''run '' @ [CHR 0x09] @ ''42'')"
    by (simp add: NUL_def)
  have len: "length (''run '' @ [CHR 0x09] @ ''42'') < (1024::nat)"
    by simp
  have "parse 128 1024 (Some (''run '' @ [CHR 0x09] @ ''42''))
     (Some \<lparr>instruct = None, id' = 0, file' = None\<rparr>) (Some (replicate 128 None))
   = Inr (Some \<lparr>instruct = Some ''run'', id' = 42, file' = None\<rparr>, Some (replicate 128 None))"
    using parse_tokens [OF nul len _ _ tk, of 128 "replicate 128 None"
        "\<lparr>instruct = None, id' = 0, file' = None\<rparr>"]
    by (simp add: stored_argv_nth cleared_stored_argv instructs_with_id_def instructs_with_file_def
        instructs_list_full_def spec_integer_token_def
        isdigit_def isspace_def strtol_def digits_val_def LONG_MAX_def LONG_MIN_def)
  moreover have "''run'' \<in> set instructs_with_id"
    by (simp add: instructs_with_id_def)
  moreover have "\<not> spec_integer_token ([CHR 0x09] @ ''42'')"
    by (simp add: spec_integer_token_def isdigit_def)
  ultimately show ?thesis
    using tk by simp
qed

subsection \<open>The token buffer when parse returns\<close>

text \<open>
  Claim C2. For a call inside the domain C defines whose line has a token, parse
  returns with \<open>instruct\<close> set to a copy of the first token. If the first token is an
  exact member of \<open>instructs_list_full\<close>, every one of the \<open>MAXARGS\<close> slots of argv is
  null (the tokens have been released); if it is not, the slots hold the tokens the
  loop stored (the first \<open>MAXARGS - 1\<close> tokens of the line, in order and unchanged),
  followed by null slots.
\<close>

theorem parse_argv_release:
  assumes "NUL \<notin> set line" and "length line < MAXLINE"
    and "3 \<le> MAXARGS" and "MAXARGS \<le> length av"
    and "tokens line = toks" and "toks \<noteq> []"
  shows "\<exists>inst' av'.
           parse MAXARGS MAXLINE (Some line) (Some i) (Some av) = Inr (Some inst', Some av')
           \<and> instruct inst' = Some (hd toks)
           \<and> take MAXARGS av' =
               (if hd toks \<in> set instructs_list_full then replicate MAXARGS None
                else map Some (take (MAXARGS - 1) toks)
                     @ replicate (MAXARGS - length (take (MAXARGS - 1) toks)) None)"
proof -
  from assms(6) obtain t ts where toks: "toks = t # ts"
    by (cases toks) auto
  show ?thesis
    using parse_tokens [OF assms(1-4), of t ts i] assms(4,5) toks
    by (simp add: cleared_stored_argv take_stored_argv)
qed

text \<open>The theorem at \<^verbatim>\<open>"/bin/ls -la"\<close>, which keeps its two tokens, and at
  \<^verbatim>\<open>"run 1 notes.txt"\<close>, which is a built-in and ends with an empty buffer.\<close>

theorem parse_argv_release_witness:
  "(\<exists>inst' av'.
      parse 128 1024 (Some ''/bin/ls -la'') (Some \<lparr>instruct = None, id' = 0, file' = None\<rparr>)
        (Some (replicate 128 None)) = Inr (Some inst', Some av')
      \<and> instruct inst' = Some ''/bin/ls''
      \<and> take 128 av' = [Some ''/bin/ls'', Some ''-la''] @ replicate 126 None)
   \<and> (\<exists>inst' av'.
      parse 128 1024 (Some ''run 1 notes.txt'') (Some \<lparr>instruct = None, id' = 0, file' = None\<rparr>)
        (Some (replicate 128 None)) = Inr (Some inst', Some av')
      \<and> instruct inst' = Some ''run''
      \<and> take 128 av' = replicate 128 None)"
  using parse_argv_release [of "''/bin/ls -la''" 1024 128 "replicate 128 None"
      "[''/bin/ls'', ''-la'']" "\<lparr>instruct = None, id' = 0, file' = None\<rparr>"]
    parse_argv_release [of "''run 1 notes.txt''" 1024 128 "replicate 128 None"
      "[''run'', ''1'', ''notes.txt'']" "\<lparr>instruct = None, id' = 0, file' = None\<rparr>"]
  by (simp add: tokens.simps strtok_def NUL_def instructs_list_full_def)

subsection \<open>The file field\<close>

text \<open>
  Claim C5. For a call inside the domain C defines whose line has a token, parse
  returns, and the file field is populated if and only if the first token is in
  \<open>instructs_with_file\<close> and a third token exists; it is then the third token, character
  for character, with no check of any kind. An instruction outside
  \<open>instructs_with_file\<close> ends with a null file field whatever the third token is. The
  third token is stored only when \<open>MAXARGS\<close> is 4 or more, which the theorem assumes.
\<close>

theorem parse_file_field:
  assumes "NUL \<notin> set line" and "length line < MAXLINE"
    and "4 \<le> MAXARGS" and "MAXARGS \<le> length av"
    and "tokens line = toks" and "toks \<noteq> []"
  shows "\<exists>inst' av'.
           parse MAXARGS MAXLINE (Some line) (Some i) (Some av) = Inr (Some inst', Some av')
           \<and> file' inst' =
               (if hd toks \<in> set instructs_with_file \<and> 3 \<le> length toks
                then Some (toks ! 2) else None)"
proof -
  from assms(6) obtain t ts where toks: "toks = t # ts"
    by (cases toks) auto
  have m: "3 \<le> MAXARGS"
    using assms(3) by simp
  have "2 < MAXARGS - Suc 0" "2 < MAXARGS"
    using assms(3) by arith+
  then have n2: "stored_argv MAXARGS (t # ts) av ! 2
                 = (if 2 \<le> length ts then Some (ts ! 1) else None)"
    by (auto simp: stored_argv_nth)
  have l: "3 \<le> length toks \<longleftrightarrow> 2 \<le> length ts"
    using toks by auto
  show ?thesis
    using parse_tokens [OF assms(1,2) m assms(4), of t ts i] assms(5) toks n2
    unfolding l by simp
qed

text \<open>The theorem at \<^verbatim>\<open>"run 1 notes.txt"\<close> (the file is \<^verbatim>\<open>notes.txt\<close>) and at
  \<^verbatim>\<open>"cancel 1 notes.txt"\<close> (no file: \<^verbatim>\<open>cancel\<close> takes an id only).\<close>

theorem parse_file_field_witness:
  "(\<exists>inst' av'.
      parse 128 1024 (Some ''run 1 notes.txt'') (Some \<lparr>instruct = None, id' = 0, file' = None\<rparr>)
        (Some (replicate 128 None)) = Inr (Some inst', Some av')
      \<and> file' inst' = Some ''notes.txt'')
   \<and> (\<exists>inst' av'.
      parse 128 1024 (Some ''cancel 1 notes.txt'') (Some \<lparr>instruct = None, id' = 0, file' = None\<rparr>)
        (Some (replicate 128 None)) = Inr (Some inst', Some av')
      \<and> file' inst' = None)"
  using parse_file_field [of "''run 1 notes.txt''" 1024 128 "replicate 128 None"
      "[''run'', ''1'', ''notes.txt'']" "\<lparr>instruct = None, id' = 0, file' = None\<rparr>"]
    parse_file_field [of "''cancel 1 notes.txt''" 1024 128 "replicate 128 None"
      "[''cancel'', ''1'', ''notes.txt'']" "\<lparr>instruct = None, id' = 0, file' = None\<rparr>"]
  by (simp add: tokens.simps strtok_def NUL_def instructs_with_file_def)

subsection \<open>The capacity of the token buffer\<close>

text \<open>
  Claim C6. For every line inside the domain C defines, parse returns without an error
  and the \<open>MAXARGS\<close> slots of argv hold at most \<open>MAXARGS - 1\<close> tokens: the first
  \<open>MAXARGS - 1\<close> tokens of the line, in the order of the line, followed by null slots.
  The tokens beyond them are dropped and nothing reports it. (For a built-in the
  tokens stored are released again before parse returns, and none is left.)
\<close>

theorem parse_token_cap:
  assumes "NUL \<notin> set line" and "length line < MAXLINE"
    and "3 \<le> MAXARGS" and "MAXARGS \<le> length av"
  shows "\<exists>inst' av'.
           parse MAXARGS MAXLINE (Some line) (Some i) (Some av) = Inr (Some inst', Some av')
           \<and> (let stored = (if tokens line \<noteq> [] \<and> hd (tokens line) \<in> set instructs_list_full
                             then [] else take (MAXARGS - 1) (tokens line))
              in take MAXARGS av' = map Some stored @ replicate (MAXARGS - length stored) None
                 \<and> length stored \<le> MAXARGS - 1)"
proof (cases "tokens line")
  case Nil
  then show ?thesis
    using parse_no_tokens [OF assms(1,2,4), of i] assms(4) by simp
next
  case (Cons t ts)
  show ?thesis
  proof (cases "t \<in> set instructs_list_full")
    case True
    then show ?thesis
      using parse_tokens [OF assms(1-4) Cons, of i] assms(4) Cons
      by (simp add: cleared_stored_argv)
  next
    case False
    then show ?thesis
      using parse_tokens [OF assms(1-4) Cons, of i] assms(3,4) Cons
      by (simp add: take_stored_argv)
  qed
qed

text \<open>The theorem with four slots and five tokens: three tokens are kept.\<close>

theorem parse_token_cap_witness:
  "\<exists>inst' av'.
     parse 4 1024 (Some ''/bin/ls -l a b c'') (Some \<lparr>instruct = None, id' = 0, file' = None\<rparr>)
       (Some (replicate 4 None)) = Inr (Some inst', Some av')
     \<and> take 4 av' = [Some ''/bin/ls'', Some ''-l'', Some ''a'', None]"
proof -
  have tk: "tokens ''/bin/ls -l a b c'' = [''/bin/ls'', ''-l'', ''a'', ''b'', ''c'']"
    by (simp add: tokens.simps strtok_def)
  show ?thesis
    using parse_token_cap [of "''/bin/ls -l a b c''" 1024 4 "replicate 4 None"
        "\<lparr>instruct = None, id' = 0, file' = None\<rparr>"]
    unfolding tk by (simp add: NUL_def instructs_list_full_def)
qed

text \<open>
  Claim C9. After \<open>initialize_argv\<close> and after every parse call inside the domain C
  defines (whatever the line and the Instruction pointer, null included), the token
  buffer is null-terminated within its capacity: at most \<open>MAXARGS - 1\<close> live tokens, a
  null slot right after the last of them, and no live token behind a null slot.
\<close>

theorem parse_null_terminated:
  assumes "3 \<le> MAXARGS" and "MAXARGS \<le> length av"
    and "cmd_line = None \<or> (\<exists>line. cmd_line = Some line \<and> NUL \<notin> set line \<and> length line < MAXLINE)"
  shows "(\<exists>r av'. initialize_argv MAXARGS (Some av) = Inr (r, Some av')
                   \<and> null_terminated MAXARGS av')
         \<and> (\<exists>inst' av'. parse MAXARGS MAXLINE cmd_line inst (Some av) = Inr (inst', Some av')
                         \<and> null_terminated MAXARGS av')"
proof -
  have pos: "0 < MAXARGS"
    using assms(1) by simp
  have cl: "null_terminated MAXARGS (replicate MAXARGS None @ drop MAXARGS av)"
    using pos by (intro null_terminated_cleared) simp_all
  have init: "\<exists>r av'. initialize_argv MAXARGS (Some av) = Inr (r, Some av')
                       \<and> null_terminated MAXARGS av'"
    using assms(2) cl by (simp add: initialize_argv_def initialize_argv_n_eq)
  have "\<exists>inst' av'. parse MAXARGS MAXLINE cmd_line inst (Some av) = Inr (inst', Some av')
                     \<and> null_terminated MAXARGS av'"
  proof (cases "cmd_line = None \<or> inst = None")
    case True
    then show ?thesis
      using parse_null_eq [OF True assms(2)] cl by simp
  next
    case False
    then obtain line i where l: "cmd_line = Some line" and i: "inst = Some i"
      by auto
    from assms(3) l have wf: "NUL \<notin> set line" "length line < MAXLINE"
      by auto
    show ?thesis
    proof (cases "tokens line")
      case Nil
      then show ?thesis
        using parse_no_tokens [OF wf assms(2) Nil, of i] cl l i by simp
    next
      case (Cons t ts)
      have "length (take (MAXARGS - 1) (t # ts)) < MAXARGS"
        using pos by simp
      then have st: "null_terminated MAXARGS (stored_argv MAXARGS (t # ts) av)"
        using assms(2) by (intro null_terminated_prefix [of "take (MAXARGS - 1) (t # ts)"])
          (simp_all add: take_stored_argv)
      have c2: "null_terminated MAXARGS (replicate (length av) None)"
        using pos assms(2) by (intro null_terminated_cleared) simp_all
      show ?thesis
        using parse_tokens [OF wf assms(1,2) Cons, of i] l i st c2 assms(2)
        by (simp add: cleared_stored_argv)
    qed
  qed
  with init show ?thesis
    by simp
qed

text \<open>The theorem on an array of four slots that were all live before the calls.\<close>

theorem parse_null_terminated_witness:
  "(\<exists>r av'. initialize_argv 4 (Some [Some ''a'', Some ''b'', Some ''c'', Some ''d''])
              = Inr (r, Some av') \<and> null_terminated 4 av')
   \<and> (\<exists>inst' av'.
        parse 4 1024 (Some ''/bin/ls -l a b c'')
          (Some \<lparr>instruct = None, id' = 0, file' = None\<rparr>)
          (Some [Some ''a'', Some ''b'', Some ''c'', Some ''d''])
          = Inr (inst', Some av') \<and> null_terminated 4 av')"
  using parse_null_terminated [of 4 "[Some ''a'', Some ''b'', Some ''c'', Some ''d'']"
      "Some ''/bin/ls -l a b c''" 1024
      "Some \<lparr>instruct = None, id' = 0, file' = None\<rparr>"]
  by (simp add: NUL_def)


subsection \<open>Null arguments\<close>

text \<open>
  Claim C3, as the code has it. \<^verbatim>\<open>parse\<close> resets argv before \<^verbatim>\<open>parse_n\<close> looks at its
  arguments. So, when the line, the Instruction or argv is null: the Instruction is
  never changed; a null argv leaves nothing changed at all; an argv that is not null
  has its first \<open>MAXARGS\<close> slots set to null, whatever they held, and its other slots
  left as they were.
\<close>

theorem parse_null_argument:
  assumes "cmd_line = None \<or> inst = None \<or> argv = None"
    and "argv = None \<or> (\<exists>av. argv = Some av \<and> MAXARGS \<le> length av)"
  shows "parse MAXARGS MAXLINE cmd_line inst argv =
           Inr (inst, map_option (\<lambda>av. replicate MAXARGS None @ drop MAXARGS av) argv)"
proof (cases argv)
  case None
  then show ?thesis
    by (simp add: parse_null_argv)
next
  case (Some av)
  with assms have "cmd_line = None \<or> inst = None" and "MAXARGS \<le> length av"
    by auto
  then show ?thesis
    using Some by (simp add: parse_null_eq)
qed

text \<open>The theorem with a null line, and with a null argv.\<close>

theorem parse_null_argument_witness:
  "parse 128 1024 None (Some \<lparr>instruct = Some ''run'', id' = 7, file' = Some ''f''\<rparr>)
     (Some (replicate 128 None))
   = Inr (Some \<lparr>instruct = Some ''run'', id' = 7, file' = Some ''f''\<rparr>, Some (replicate 128 None))
   \<and> parse 128 1024 (Some ''run 1'') (Some \<lparr>instruct = Some ''run'', id' = 7, file' = Some ''f''\<rparr>)
       None
     = Inr (Some \<lparr>instruct = Some ''run'', id' = 7, file' = Some ''f''\<rparr>, None)"
  using parse_null_argument [of None "Some \<lparr>instruct = Some ''run'', id' = 7, file' = Some ''f''\<rparr>"
      "Some (replicate 128 None)" 128 1024]
    parse_null_argument [of "Some ''run 1''"
      "Some \<lparr>instruct = Some ''run'', id' = 7, file' = Some ''f''\<rparr>" None 128 1024]
  by simp

text \<open>
  The claim that nothing at all is mutated fails: with a null line, an argv that still
  holds the two tokens of an earlier \<^verbatim>\<open>"/bin/ls -la"\<close> comes back with every slot
  null. Slot 0 held a token before the call and is null after it.
\<close>

theorem parse_null_line_counterexample:
  "parse 128 1024 None (Some \<lparr>instruct = None, id' = 0, file' = None\<rparr>)
     (Some (Some ''/bin/ls'' # Some ''-la'' # replicate 126 None))
   = Inr (Some \<lparr>instruct = None, id' = 0, file' = None\<rparr>, Some (replicate 128 None))
   \<and> (Some ''/bin/ls'' # Some ''-la'' # replicate 126 None) ! 0 = Some ''/bin/ls''
   \<and> replicate 128 (None :: string option) ! 0 = None"
  using parse_null_eq [of None "Some \<lparr>instruct = None, id' = 0, file' = None\<rparr>" 128
      "Some ''/bin/ls'' # Some ''-la'' # replicate 126 None" 1024]
  by simp

subsection \<open>Blank lines\<close>

text \<open>
  Claim C4, as the code has it. \<^verbatim>\<open>strtok\<close> splits on the space character only. For
  every line shorter than \<open>MAXLINE\<close> that is empty or made of space characters only,
  parse returns with \<open>instruct\<close> null, the id 0, the file null and no token in the
  buffer; it is a normal return, not an error. (Such a line is white space for
  \<open>is_whitespace\<close> too.)
\<close>

theorem parse_blank_line:
  assumes "set line \<subseteq> {CHR '' ''}" and "length line < MAXLINE" and "MAXARGS \<le> length av"
  shows "\<exists>inst' av'.
           parse MAXARGS MAXLINE (Some line) (Some i) (Some av) = Inr (Some inst', Some av')
           \<and> instruct inst' = None \<and> id' inst' = 0 \<and> file' inst' = None
           \<and> take MAXARGS av' = replicate MAXARGS None
           \<and> is_whitespace (Some line)"
proof -
  have nul: "NUL \<notin> set line"
    using assms(1) by (auto simp: NUL_def)
  have tk: "tokens line = []"
    using assms(1) by (rule tokens_spaces)
  have "\<forall>c \<in> set line. isspace c"
    using assms(1) by (auto simp: isspace_def)
  then have "is_whitespace (Some line)"
    by (simp add: is_whitespace_def)
  then show ?thesis
    using parse_no_tokens [OF nul assms(2,3) tk, of i] assms(3) by simp
qed

text \<open>The theorem at a line of three spaces, on an Instruction that held values.\<close>

theorem parse_blank_line_witness:
  "\<exists>inst' av'.
     parse 128 1024 (Some ''   '') (Some \<lparr>instruct = Some ''run'', id' = 7, file' = Some ''f''\<rparr>)
       (Some (replicate 128 None)) = Inr (Some inst', Some av')
     \<and> instruct inst' = None \<and> id' inst' = 0 \<and> file' inst' = None
     \<and> take 128 av' = replicate 128 None"
  using parse_blank_line [of "''   ''" 1024 128 "replicate 128 None"
      "\<lparr>instruct = Some ''run'', id' = 7, file' = Some ''f''\<rparr>"]
  by auto

text \<open>
  The claim for every line of white-space characters fails: the line \<^verbatim>\<open>"\n"\<close> is
  white space for \<open>is_whitespace\<close>, and parse makes the newline a token, the
  instruction name.
\<close>

theorem parse_newline_counterexample:
  "is_whitespace (Some [CHR 0x0A])
   \<and> parse 128 1024 (Some [CHR 0x0A]) (Some \<lparr>instruct = None, id' = 0, file' = None\<rparr>)
       (Some (replicate 128 None))
     = Inr (Some \<lparr>instruct = Some [CHR 0x0A], id' = 0, file' = None\<rparr>,
            Some (Some [CHR 0x0A] # replicate 127 None))"
proof -
  have tk: "tokens [CHR 0x0A] = [[CHR 0x0A]]"
    by (simp add: tokens.simps strtok_def)
  have nul: "NUL \<notin> set [CHR 0x0A]"
    by (simp add: NUL_def)
  have len: "length [CHR 0x0A] < (1024::nat)"
    by simp
  have "parse 128 1024 (Some [CHR 0x0A]) (Some \<lparr>instruct = None, id' = 0, file' = None\<rparr>)
       (Some (replicate 128 None))
     = Inr (Some \<lparr>instruct = Some [CHR 0x0A], id' = 0, file' = None\<rparr>,
            Some (Some [CHR 0x0A] # replicate 127 None))"
    using parse_tokens [OF nul len _ _ tk, of 128 "replicate 128 None"
        "\<lparr>instruct = None, id' = 0, file' = None\<rparr>"]
    by (simp add: stored_argv_nth stored_argv_def instructs_with_id_def instructs_with_file_def
        instructs_list_full_def)
  moreover have "is_whitespace (Some [CHR 0x0A])"
    by (simp add: is_whitespace_def isspace_def)
  ultimately show ?thesis
    by simp
qed

subsection \<open>Lines that do not fit the scratch buffer\<close>

text \<open>
  Claim C7 says an over-long line is parsed as its first \<open>MAXLINE\<close> characters would be.
  \<^verbatim>\<open>parse_n\<close> copies \<open>MAXLINE\<close> characters into an array of \<open>MAXLINE\<close> bytes, which leaves
  no room for the terminator, and \<^verbatim>\<open>strtok\<close> then reads past the end of the array. With
  a buffer of 1024 bytes: a line of 1025 characters and a line of 1024 characters both
  end in that read, and a line of 1023 characters is parsed in full.
\<close>

theorem parse_overlong_line:
  "parse 128 1024 (Some (replicate 1025 CHR ''a'')) (Some \<lparr>instruct = None, id' = 0, file' = None\<rparr>)
     (Some (replicate 128 None)) = Inl Buffer_Overread
   \<and> parse 128 1024 (Some (replicate 1024 CHR ''a'')) (Some \<lparr>instruct = None, id' = 0, file' = None\<rparr>)
       (Some (replicate 128 None)) = Inl Buffer_Overread
   \<and> parse 128 1024 (Some (replicate 1023 CHR ''a'')) (Some \<lparr>instruct = None, id' = 0, file' = None\<rparr>)
       (Some (replicate 128 None))
     = Inr (Some \<lparr>instruct = Some (replicate 1023 CHR ''a''), id' = 0, file' = None\<rparr>,
            Some (Some (replicate 1023 CHR ''a'') # replicate 127 None))"
proof -
  have nul: "NUL \<notin> set (replicate n CHR ''a'')" for n
    by (auto simp: NUL_def)
  have sp: "dropWhile (\<lambda>c. c \<in> set '' '') (replicate n CHR ''a'') = replicate n CHR ''a''"
    "takeWhile (\<lambda>c. c \<notin> set '' '') (replicate n CHR ''a'') = replicate n CHR ''a''"
    "dropWhile (\<lambda>c. c \<notin> set '' '') (replicate n CHR ''a'') = []" for n
    by simp_all
  have st: "strtok (replicate 1023 CHR ''a'') '' '' = Some (replicate 1023 CHR ''a'', [])"
    unfolding strtok_def Let_def sp by simp
  have "strtok [] '' '' = None"
    by (simp add: strtok_def)
  then have "tokens [] = []"
    by (rule tokens_None)
  with st have tk: "tokens (replicate 1023 CHR ''a'') = [replicate 1023 CHR ''a'']"
    by (simp add: tokens_Some)
  have short: "\<forall>x \<in> set instructs_list_full \<union> set instructs_with_id
                     \<union> set instructs_with_file. length x < 1023"
    by (simp add: instructs_list_full_def instructs_with_id_def instructs_with_file_def)
  have "length (replicate 1023 CHR ''a'') = 1023"
    by simp
  with short have notin: "replicate 1023 CHR ''a'' \<notin> set instructs_with_id"
    "replicate 1023 CHR ''a'' \<notin> set instructs_with_file"
    "replicate 1023 CHR ''a'' \<notin> set instructs_list_full"
    by (metis UnCI nat_neq_iff)+
  have len: "length (replicate 1023 CHR ''a'') < (1024::nat)"
    by simp
  have fits: "parse 128 1024 (Some (replicate 1023 CHR ''a''))
       (Some \<lparr>instruct = None, id' = 0, file' = None\<rparr>) (Some (replicate 128 None))
     = Inr (Some \<lparr>instruct = Some (replicate 1023 CHR ''a''), id' = 0, file' = None\<rparr>,
            Some (Some (replicate 1023 CHR ''a'') # replicate 127 None))"
    using parse_tokens [OF nul len _ _ tk, of 128 "replicate 128 None"
        "\<lparr>instruct = None, id' = 0, file' = None\<rparr>"] notin
    by (simp add: stored_argv_nth stored_argv_def)
  have over: "parse 128 1024 (Some (replicate n CHR ''a''))
       (Some \<lparr>instruct = None, id' = 0, file' = None\<rparr>) (Some (replicate 128 None))
     = Inl Buffer_Overread" if "1024 \<le> n" for n
    using that by (intro parse_overlong nul) simp_all
  show ?thesis
    using fits over [of 1025] over [of 1024] by simp
qed

subsection \<open>An id outside the range of int\<close>

text \<open>
  Claim C10. The second token of \<^verbatim>\<open>"run 2147483648"\<close> is a complete base-10 integer,
  of value \<open>2^31\<close>, one more than the largest \<^verbatim>\<open>int\<close>. \<^verbatim>\<open>strtol\<close> returns it as a
  \<^verbatim>\<open>long\<close>, \<open>parse_id_token\<close> reports success, and the id is that value narrowed to 32
  bits: \<open>2^31 - 2^32\<close>, neither the true value nor the default 0.
\<close>

theorem parse_id_narrowed:
  assumes "14 < MAXLINE" and "3 \<le> MAXARGS" and "MAXARGS \<le> length av"
  shows "\<exists>inst' av'.
           parse MAXARGS MAXLINE (Some ''run 2147483648'') (Some i) (Some av)
             = Inr (Some inst', Some av')
           \<and> spec_integer_token ''2147483648''
           \<and> fst (strtol ''2147483648'') = 2147483648
           \<and> parse_id_token (Some ''2147483648'') (Some ''run'') (Some 0)
               = (1, Some (word_of_int 2147483648))
           \<and> id' inst' = word_of_int 2147483648
           \<and> sint (id' inst') = 2147483648 - 2 ^ 32
           \<and> sint (id' inst') \<noteq> 2147483648
           \<and> id' inst' \<noteq> 0"
proof -
  have tk: "tokens ''run 2147483648'' = [''run'', ''2147483648'']"
    by (simp add: tokens.simps strtok_def)
  have nul: "NUL \<notin> set ''run 2147483648''"
    by (simp add: NUL_def)
  have len: "length ''run 2147483648'' < MAXLINE"
    using assms(1) by simp
  have lit: "spec_integer_token ''2147483648''"
    by (simp add: spec_integer_token_def isdigit_def)
  have sp: "dropWhile isspace ''2147483648'' = ''2147483648''"
    by (simp add: isspace_def)
  have val: "strtol ''2147483648'' = (2147483648, 10)"
    by (simp add: strtol_def isspace_def isdigit_def digits_val_def LONG_MAX_def LONG_MIN_def)
  have run: "''run'' \<in> set instructs_with_id"
    by (simp add: instructs_with_id_def)
  have nulr: "NUL \<notin> set ''run''"
    by (simp add: NUL_def)
  have tokf: "parse_id_token (Some ''2147483648'') (Some ''run'') (Some 0)
              = (1, Some (word_of_int 2147483648))"
    using parse_id_token_eq [OF nulr, of "Some ''2147483648''" 0] lit sp val run by simp
  have "Suc 0 < MAXARGS - Suc 0"
    using assms(2) by arith
  then have n1: "stored_argv MAXARGS [''run'', ''2147483648''] av ! 1 = Some ''2147483648''"
    using assms(2) by (simp add: stored_argv_nth)
  have w: "sint (word_of_int 2147483648 :: 32 word) = 2147483648 - 2 ^ 32"
    "(word_of_int 2147483648 :: 32 word) \<noteq> 0"
    by simp_all
  obtain inst' av' where p: "parse MAXARGS MAXLINE (Some ''run 2147483648'') (Some i) (Some av)
             = Inr (Some inst', Some av')" and idv: "id' inst' = word_of_int 2147483648"
    using parse_tokens [OF nul len assms(2,3) tk, of i] n1 lit sp val run by simp
  show ?thesis
    using p idv tokf lit val w by simp
qed

text \<open>The theorem with 128 slots and a buffer of 1024 bytes: the id reads -2147483648.\<close>

theorem parse_id_narrowed_witness:
  "\<exists>inst' av'.
     parse 128 1024 (Some ''run 2147483648'') (Some \<lparr>instruct = None, id' = 0, file' = None\<rparr>)
       (Some (replicate 128 None)) = Inr (Some inst', Some av')
     \<and> sint (id' inst') = - 2147483648"
  using parse_id_narrowed [of 1024 128 "replicate 128 None"
      "\<lparr>instruct = None, id' = 0, file' = None\<rparr>"]
  by auto

end
